theory Spec2Isabelle
  imports Complex_Main "HOL-Library.Sublist" "HOL-Library.Product_Lexorder" "HOL-Library.Multiset"
begin

section \<open>Python values used by the three source files\<close>

text \<open>
  A Python string is a sequence of Unicode code points. A code point is a natural number,
  a string a list of them; \<open>str\<close> turns an ASCII literal into such a string.
\<close>

type_synonym pychar = nat
type_synonym pystr = "pychar list"

definition str :: "string \<Rightarrow> pystr" where
  "str s = map of_char s"

datatype py_error =
    KeyError
  | IndexError
  | NameError pystr
  | UnboundLocalError pystr
  | AssertionError
  | ValueError
  | Exception pystr

text \<open>\<^verbatim>\<open>xs[:k]\<close>: a negative bound counts from the end, and the bound is clipped.\<close>

definition py_slice_to :: "'a list \<Rightarrow> int \<Rightarrow> 'a list" where
  "py_slice_to xs k =
     (if k < 0 then take (nat (int (length xs) + k)) xs else take (nat k) xs)"

text \<open>\<^verbatim>\<open>xs * n\<close>: the empty list when \<open>n \<le> 0\<close>.\<close>

definition py_repeat :: "'a list \<Rightarrow> int \<Rightarrow> 'a list" where
  "py_repeat xs n = concat (replicate (nat n) xs)"

text \<open>\<^verbatim>\<open>xs[i]\<close>: a negative index counts from the end; out of range raises IndexError.\<close>

definition getitem :: "'a list \<Rightarrow> int \<Rightarrow> py_error + 'a" where
  "getitem xs i =
     (if 0 \<le> i \<and> i < int (length xs) then Inr (xs ! nat i)
      else if - int (length xs) \<le> i \<and> i < 0 then Inr (xs ! nat (int (length xs) + i))
      else Inl IndexError)"

text \<open>\<^verbatim>\<open>[xs[i] for i in idxs]\<close>: the first failing lookup ends the comprehension.\<close>

fun getitems :: "'a list \<Rightarrow> int list \<Rightarrow> py_error + 'a list" where
  "getitems xs [] = Inr []"
| "getitems xs (i # is) =
     (case getitem xs i of
        Inl e \<Rightarrow> Inl e
      | Inr x \<Rightarrow> (case getitems xs is of Inl e \<Rightarrow> Inl e | Inr ys \<Rightarrow> Inr (x # ys)))"

text \<open>\<^verbatim>\<open>[d[k] for k in ks]\<close> on a dict: a missing key raises KeyError.\<close>

fun lookups :: "('k \<rightharpoonup> 'v) \<Rightarrow> 'k list \<Rightarrow> py_error + 'v list" where
  "lookups d [] = Inr []"
| "lookups d (k # ks) =
     (case d k of
        None \<Rightarrow> Inl KeyError
      | Some v \<Rightarrow> (case lookups d ks of Inl e \<Rightarrow> Inl e | Inr vs \<Rightarrow> Inr (v # vs)))"

text \<open>\<^verbatim>\<open>s.find(sub)\<close>: the lowest index at which \<open>sub\<close> starts in \<open>s\<close>, or \<open>-1\<close>.\<close>

fun py_find :: "'a list \<Rightarrow> 'a list \<Rightarrow> int" where
  "py_find [] sub = (if sub = [] then 0 else -1)"
| "py_find (c # s) sub =
     (if prefix sub (c # s) then 0
      else (let r = py_find s sub in if r = -1 then -1 else r + 1))"

text \<open>
  \<^verbatim>\<open>s.upper()\<close> maps every code point on its own. On ASCII only the letters a to z change.
  Beyond ASCII the result is given by the Unicode tables of the Python runtime (it can be
  several code points long); these tables are the parameter \<open>U\<close>.
\<close>

definition upper_char :: "(pychar \<Rightarrow> pystr) \<Rightarrow> pychar \<Rightarrow> pystr" where
  "upper_char U c =
     (if 97 \<le> c \<and> c \<le> 122 then [c - 32] else if c < 128 then [c] else U c)"

definition upper :: "(pychar \<Rightarrow> pystr) \<Rightarrow> pystr \<Rightarrow> pystr" where
  "upper U s = concat (map (upper_char U) s)"

section \<open>dataset.py: the lexicon and LabelConverter\<close>

definition TEXT_CLASSES :: "pystr \<rightharpoonup> int" where
  "TEXT_CLASSES =
     [str ''question'' \<mapsto> 0, str ''answer'' \<mapsto> 1, str ''header'' \<mapsto> 2, str ''other'' \<mapsto> 3]"

text \<open>The 95 one-character strings of the table, in the order of the source.\<close>

definition Lexicon_Table_95 :: "pystr list" where
  "Lexicon_Table_95 = map (\<lambda>c. [c])
     (str (''!'' @ [CHR 0x22] @ ''#$%&'' @ [CHR 0x27] @ ''()*+,-./'' @
           ''0123456789:;<=>?@'' @
           ''ABCDEFGHIJKLMNOPQ'' @
           ''RSTUVWXYZ['' @ [CHR 0x5C] @ '']^_`abc'' @
           ''defghijklmnopqrst'' @
           ''uvwxyz{|}~ ''))"

record LabelConverter =
  recg_loss :: pystr
  idx2char :: "pystr list"
  seq_len :: int
  char2idx :: "pystr \<rightharpoonup> int"

text \<open>
  \<^verbatim>\<open>__init__(seq_len=50, lexicon=None, recg_loss='CE')\<close>. The dictionary is filled by the
  loop over \<^verbatim>\<open>enumerate(self.idx2char)\<close>, a later entry overwriting an earlier one.
\<close>

definition LabelConverter_init :: "int \<Rightarrow> pystr list option \<Rightarrow> pystr \<Rightarrow> LabelConverter" where
  "LabelConverter_init sl lexicon loss =
     (let lexicon = (case lexicon of None \<Rightarrow> Lexicon_Table_95 | Some l \<Rightarrow> l);
          tokens = [str ''[PAD]'', str ''[STOP]''];
          i2c = tokens @ lexicon
      in \<lparr> recg_loss = loss,
           idx2char = i2c,
           seq_len = sl,
           char2idx = fold (\<lambda>(i, char) d. d(char \<mapsto> int i)) (enumerate 0 i2c) Map.empty \<rparr>)"

definition encode ::
  "(pychar \<Rightarrow> pystr) \<Rightarrow> LabelConverter \<Rightarrow> pystr \<Rightarrow> bool \<Rightarrow> py_error + (int list \<times> int list)" where
  "encode U self text ignore_tag =
     (let text = (if ignore_tag then [] else text);
          text = upper U text;
          text = map (\<lambda>c. [c]) text @ [str ''[STOP]'']
      in case lookups (char2idx self) text of
           Inl e \<Rightarrow> Inl e
         | Inr text_idx \<Rightarrow>
             (case char2idx self (str ''[PAD]'') of
                None \<Rightarrow> Inl KeyError
              | Some pad \<Rightarrow>
                  (let new_text_idx = py_repeat [pad] (seq_len self);
                       text_len = int (length text)
                   in if text_len > seq_len self
                      then Inr (py_slice_to text_idx (seq_len self), text_idx)
                      else Inr (text_idx @ drop (nat text_len) new_text_idx, text_idx))))"

text \<open>
  The loop of the CTC branch: the element at position \<open>i\<close> is kept when it is not 0 and,
  unless \<open>i = 0\<close>, differs from the element before it.
\<close>

definition ctc_keep :: "int list \<Rightarrow> int list" where
  "ctc_keep text_idx =
     map snd (filter (\<lambda>(i, t). t \<noteq> 0 \<and> (i = 0 \<or> t \<noteq> text_idx ! (i - 1)))
                     (enumerate 0 text_idx))"

text \<open>
  With a \<^verbatim>\<open>recg_loss\<close> that is neither \<^verbatim>\<open>"CE"\<close> nor \<^verbatim>\<open>"CTC"\<close> the local \<^verbatim>\<open>text\<close> is never
  assigned, and reading it raises UnboundLocalError.
\<close>

definition decode :: "LabelConverter \<Rightarrow> int list \<Rightarrow> py_error + pystr" where
  "decode self text_idx =
     (case (if recg_loss self = str ''CE''
            then (case getitems (idx2char self) text_idx of
                    Inl e \<Rightarrow> Inl e | Inr cs \<Rightarrow> Inr (concat cs))
            else if recg_loss self = str ''CTC''
            then (case getitems (idx2char self) (ctc_keep text_idx) of
                    Inl e \<Rightarrow> Inl e | Inr cs \<Rightarrow> Inr (concat cs))
            else Inl (UnboundLocalError (str ''text''))) of
        Inl e \<Rightarrow> Inl e
      | Inr text \<Rightarrow>
          Inr (if py_find text (str ''[STOP]'') \<noteq> -1
               then py_slice_to text (py_find text (str ''[STOP]''))
               else text))"

text \<open>
  The reference computation of CTC decoding in the words of the specification: collapse
  runs of equal neighbours, drop the blanks, map to characters, cut at the stop token.
\<close>

fun collapse_repeats :: "int list \<Rightarrow> int list" where
  "collapse_repeats [] = []"
| "collapse_repeats [x] = [x]"
| "collapse_repeats (x # y # xs) =
     (if x = y then collapse_repeats (y # xs) else x # collapse_repeats (y # xs))"

definition drop_blanks :: "int list \<Rightarrow> int list" where
  "drop_blanks xs = filter (\<lambda>t. t \<noteq> 0) xs"

fun no_adjacent_repeats :: "int list \<Rightarrow> bool" where
  "no_adjacent_repeats [] = True"
| "no_adjacent_repeats [x] = True"
| "no_adjacent_repeats (x # y # xs) = (x \<noteq> y \<and> no_adjacent_repeats (y # xs))"

definition cut_at_stop :: "pystr \<Rightarrow> pystr" where
  "cut_at_stop text =
     (if py_find text (str ''[STOP]'') \<noteq> -1
      then py_slice_to text (py_find text (str ''[STOP]'')) else text)"

definition decode_ctc_reference :: "pystr list \<Rightarrow> int list \<Rightarrow> py_error + pystr" where
  "decode_ctc_reference table text_idx =
     (case getitems table (drop_blanks (collapse_repeats text_idx)) of
        Inl e \<Rightarrow> Inl e
      | Inr cs \<Rightarrow> Inr (cut_at_stop (concat cs)))"

section \<open>dataset.py: ordering of boxes and parsing of annotations\<close>

type_synonym anno_entry = "real list \<times> pystr \<times> int \<times> bool"

text \<open>
  \<^verbatim>\<open>cv2.minAreaRect\<close> belongs to OpenCV; the centre it returns for a polygon is the
  parameter \<open>center\<close>, with the coordinates read as real numbers.
\<close>

definition compare_key :: "(real list \<Rightarrow> real \<times> real) \<Rightarrow> bool \<Rightarrow> anno_entry \<Rightarrow> real \<times> real" where
  "compare_key center left_right_first x =
     (let poly = fst x; c = center poly
      in if left_right_first then (fst c, snd c) else (snd c, fst c))"

text \<open>
  \<^verbatim>\<open>sorted(anno, key=compare_key)\<close>: Python's stable sort; tuples compare lexicographically.
\<close>

definition sort_box_with_list ::
  "(real list \<Rightarrow> real \<times> real) \<Rightarrow> anno_entry list \<Rightarrow> bool \<Rightarrow> anno_entry list" where
  "sort_box_with_list center anno left_right_first =
     sort_key (compare_key center left_right_first) anno"

definition bbox2poly :: "real list \<Rightarrow> py_error + real list" where
  "bbox2poly bbox =
     (if length bbox < 4 then Inl IndexError
      else Inr [bbox ! 0, bbox ! 1, bbox ! 2, bbox ! 1, bbox ! 2, bbox ! 3, bbox ! 0, bbox ! 3])"

text \<open>
  The records of a FUNSD annotation file after \<^verbatim>\<open>json.load\<close>: every record of the
  \<^verbatim>\<open>form\<close> list has a box, a text, a label and its words, every word a box and a text.
  The numbers of a box are read as real numbers, on which \<^verbatim>\<open>float\<close> changes nothing.
\<close>

record funsd_word =
  word_box :: "real list"
  word_text :: pystr

record funsd_line =
  line_box :: "real list"
  line_text :: pystr
  line_label :: pystr
  line_words :: "funsd_word list"

record anno_res =
  res_word :: "anno_entry list"
  res_line :: "anno_entry list"

definition filter_lexicon :: "pystr \<Rightarrow> pystr" where
  "filter_lexicon transcript = filter (\<lambda>char. [char] \<in> set Lexicon_Table_95) transcript"

fun parse_words :: "funsd_word list \<Rightarrow> anno_res \<Rightarrow> py_error + anno_res" where
  "parse_words [] res = Inr res"
| "parse_words (word # ws) res =
     (case bbox2poly (word_box word) of
        Inl e \<Rightarrow> Inl e
      | Inr poly \<Rightarrow>
          parse_words ws
            (res\<lparr>res_word := res_word res @ [(poly, filter_lexicon (word_text word), -1, False)]\<rparr>))"

fun parse_lines :: "funsd_line list \<Rightarrow> anno_res \<Rightarrow> py_error + anno_res" where
  "parse_lines [] res = Inr res"
| "parse_lines (line # ls) res =
     (if length (line_text line) = 0 then parse_lines ls res
      else (case bbox2poly (line_box line) of
              Inl e \<Rightarrow> Inl e
            | Inr poly \<Rightarrow>
                (case TEXT_CLASSES (line_label line) of
                   None \<Rightarrow> Inl KeyError
                 | Some text_class \<Rightarrow>
                     (case parse_words (line_words line)
                             (res\<lparr>res_line := res_line res @
                                    [(poly, filter_lexicon (line_text line), text_class, False)]\<rparr>) of
                        Inl e \<Rightarrow> Inl e
                      | Inr res' \<Rightarrow> parse_lines ls res'))))"

definition parse_ann_info_funsd :: "funsd_line list \<Rightarrow> py_error + anno_res option" where
  "parse_ann_info_funsd form =
     (case parse_lines form \<lparr>res_word = [], res_line = []\<rparr> of
        Inl e \<Rightarrow> Inl e
      | Inr res \<Rightarrow>
          (if length (res_line res) = 0 \<or> length (res_word res) = 0 then Inr None
           else Inr (Some res)))"

section \<open>random\_erasing.py: Pixels\<close>

record Pixels =
  pixels_mode :: pystr
  pixels_mean :: "real list"

text \<open>
  A draw of \<^verbatim>\<open>np.random.normal(size=...)\<close> is represented by the shape asked for; numpy
  raises ValueError when a dimension of the shape is negative. The constant fill is the
  stored mean.
\<close>

datatype fill = RandomNormal "int list" | Mean "real list"

definition random_normal :: "int list \<Rightarrow> py_error + fill" where
  "random_normal shape =
     (if list_ex (\<lambda>d. d < 0) shape then Inl ValueError else Inr (RandomNormal shape))"

definition invalid_mode_message :: pystr where
  "invalid_mode_message =
     str (''Invalid mode in RandomErasing, only support '' @ [CHR 0x22] @ ''const'' @
          [CHR 0x22] @ '', '' @ [CHR 0x22] @ ''rand'' @ [CHR 0x22] @ '', '' @
          [CHR 0x22] @ ''pixel'' @ [CHR 0x22])"

definition Pixels_call :: "Pixels \<Rightarrow> int \<Rightarrow> int \<Rightarrow> int \<Rightarrow> py_error + fill" where
  "Pixels_call self h w c =
     (if pixels_mode self = str ''rand'' then random_normal [1, 1, 3]
      else if pixels_mode self = str ''pixel'' then random_normal [h, w, c]
      else if pixels_mode self = str ''const'' then Inr (Mean (pixels_mean self))
      else Inl (Exception invalid_mode_message))"

section \<open>utils.py: AdamWDL and cosine\_scheduler\<close>

text \<open>
  The names bound at the top level of utils.py, in the order of their first binding, and
  the builtins the file calls. A name that is in neither list raises NameError when read.
\<close>

definition module_globals :: "pystr list" where
  "module_globals = map str
     [''partial'', ''math'', ''np'', ''paddle'', ''fluid'', ''core'', ''AdamW'', ''__all__'',
      ''layerwise_lr_decay'', ''AdamWDL'', ''create_optimizer'', ''cosine_scheduler'',
      ''polynomial_scheduler'']"

definition builtins_used :: "pystr list" where
  "builtins_used = map str
     [''int'', ''isinstance'', ''float'', ''TypeError'', ''super'', ''hasattr'', ''len'',
      ''dict'', ''print'', ''range'']"

definition load_global :: "pystr \<Rightarrow> py_error + pystr" where
  "load_global name =
     (if name \<in> set module_globals \<or> name \<in> set builtins_used then Inr name
      else Inl (NameError name))"

record param =
  param_name :: pystr
  learning_rate :: real

text \<open>
  The optimizer of the framework: the decoupled weight decay step and the step of the
  class that follows a given class in the method resolution order, both acting on the
  framework's state \<open>'s\<close>.
\<close>

record 's framework =
  append_decoupled_weight_decay :: "'s \<Rightarrow> param \<Rightarrow> 's"
  super_append_optimize_op :: "pystr \<Rightarrow> 's \<Rightarrow> param \<Rightarrow> py_error + ('s \<times> param)"

record AdamWDL =
  set_param_lr_fun :: "(param \<Rightarrow> param) option"

definition append_optimize_op ::
  "'s framework \<Rightarrow> AdamWDL \<Rightarrow> 's \<Rightarrow> param \<Rightarrow> py_error + ('s \<times> param)" where
  "append_optimize_op fw self block p =
     (case set_param_lr_fun self of
        None \<Rightarrow>
          (case load_global (str ''AdamLW'') of
             Inl e \<Rightarrow> Inl e
           | Inr cls \<Rightarrow> super_append_optimize_op fw cls block p)
      | Some f \<Rightarrow>
          (let block1 = append_decoupled_weight_decay fw block p;
               prev_lr = learning_rate p;
               p1 = f p
           in case load_global (str ''AdamW'') of
                Inl e \<Rightarrow> Inl e
              | Inr cls \<Rightarrow>
                  (case super_append_optimize_op fw cls block1 p1 of
                     Inl e \<Rightarrow> Inl e
                   | Inr (block2, p2) \<Rightarrow> Inr (block2, p2\<lparr>learning_rate := prev_lr\<rparr>))))"

text \<open>\<^verbatim>\<open>np.linspace(start, stop, num)\<close> for the \<open>num > 0\<close> it is called with.\<close>

definition linspace :: "real \<Rightarrow> real \<Rightarrow> nat \<Rightarrow> real list" where
  "linspace start stop num =
     (if num = 1 then [start]
      else map (\<lambda>i. start + real i * ((stop - start) / real (num - 1))) [0..<num])"

text \<open>\<^verbatim>\<open>np.arange(n)\<close>: empty when \<open>n \<le> 0\<close>.\<close>

definition arange :: "int \<Rightarrow> nat list" where
  "arange n = [0..<nat n]"

text \<open>The array built before the final assertion; floats are read as real numbers.\<close>

definition cosine_schedule :: "real \<Rightarrow> real \<Rightarrow> int \<Rightarrow> real \<Rightarrow> int \<Rightarrow> real list" where
  "cosine_schedule base_value final_value total_iters start_warmup_value warmup_iters =
     (let warmup_schedule =
            (if warmup_iters > 0 then linspace start_warmup_value base_value (nat warmup_iters)
             else []);
          iters = arange (total_iters - warmup_iters);
          schedule = map (\<lambda>i. final_value + 0.5 * (base_value - final_value) *
                                 (1 + cos (pi * real i / real (length iters)))) iters
      in warmup_schedule @ schedule)"

definition cosine_scheduler :: "real \<Rightarrow> real \<Rightarrow> int \<Rightarrow> real \<Rightarrow> int \<Rightarrow> py_error + real list" where
  "cosine_scheduler base_value final_value total_iters start_warmup_value warmup_iters =
     (let schedule =
            cosine_schedule base_value final_value total_iters start_warmup_value warmup_iters
      in if int (length schedule) = total_iters then Inr schedule else Inl AssertionError)"

text \<open>The call with the defaults \<^verbatim>\<open>start_warmup_value=0, warmup_iters=-1\<close>.\<close>

definition cosine_scheduler_default :: "real \<Rightarrow> real \<Rightarrow> int \<Rightarrow> py_error + real list" where
  "cosine_scheduler_default base_value final_value total_iters =
     cosine_scheduler base_value final_value total_iters 0 (-1)"

section \<open>The lexicon and the dictionary of LabelConverter\<close>

lemma Lexicon_Table_95_codes: "Lexicon_Table_95 = map (\<lambda>c. [c]) ([33..<127] @ [32])"
  by (simp add: Lexicon_Table_95_def str_def upt_rec)

lemma in_Lexicon_iff: "[c] \<in> set Lexicon_Table_95 \<longleftrightarrow> 32 \<le> c \<and> c \<le> 126"
proof -
  have "set ([33..<127] @ [32]) = {32..126::nat}"
    by (auto simp del: upt_rec_numeral)
  then have "set Lexicon_Table_95 = (\<lambda>c. [c]) ` {32..126}"
    by (simp only: Lexicon_Table_95_codes set_map)
  then show ?thesis by auto
qed

lemma length_Lexicon: "length Lexicon_Table_95 = 95"
  by (simp add: Lexicon_Table_95_codes)

lemma distinct_Lexicon: "distinct Lexicon_Table_95"
  by (simp add: Lexicon_Table_95_codes distinct_map inj_on_def)

lemma fold_enumerate_notin:
  "k \<notin> set xs \<Longrightarrow> fold (\<lambda>(i, char) d. d(char \<mapsto> int i)) (enumerate n xs) m k = m k"
  by (induction xs arbitrary: n m) auto

lemma fold_enumerate_distinct:
  "distinct xs \<Longrightarrow> i < length xs \<Longrightarrow>
   fold (\<lambda>(i, char) d. d(char \<mapsto> int i)) (enumerate n xs) m (xs ! i) = Some (int (n + i))"
proof (induction xs arbitrary: n m i)
  case Nil
  then show ?case by simp
next
  case (Cons x xs)
  let ?F = "\<lambda>(i, char) d. d(char \<mapsto> int i)"
  have step: "fold ?F (enumerate n (x # xs)) m = fold ?F (enumerate (Suc n) xs) (m(x \<mapsto> int n))"
    by simp
  show ?case
  proof (cases i)
    case 0
    have "x \<notin> set xs" using Cons.prems by simp
    then have "fold ?F (enumerate (Suc n) xs) (m(x \<mapsto> int n)) x = (m(x \<mapsto> int n)) x"
      by (rule fold_enumerate_notin)
    then have "fold ?F (enumerate n (x # xs)) m x = Some (int n)"
      by (simp only: step fun_upd_same)
    with 0 show ?thesis by (simp only: nth_Cons_0 add_0_right)
  next
    case (Suc j)
    with Cons.prems have "fold ?F (enumerate (Suc n) xs) (m(x \<mapsto> int n)) (xs ! j) = Some (int (Suc n + j))"
      by (intro Cons.IH) simp_all
    with Suc show ?thesis by (simp only: step nth_Cons_Suc add_Suc_shift add_Suc)
  qed
qed

lemma fold_enumerate_dom:
  "dom (fold (\<lambda>(i, char) d. d(char \<mapsto> int i)) (enumerate n xs) m) = dom m \<union> set xs"
  by (induction xs arbitrary: n m) auto

lemma idx2char_init: "idx2char (LabelConverter_init sl None loss) = [str ''[PAD]'', str ''[STOP]''] @ Lexicon_Table_95"
  by (simp add: LabelConverter_init_def)

lemma distinct_idx2char: "distinct (idx2char (LabelConverter_init sl None loss))"
  by (auto simp: idx2char_init distinct_Lexicon str_def Lexicon_Table_95_codes)

lemma char2idx_init:
  "char2idx (LabelConverter_init sl None loss) =
     fold (\<lambda>(i, char) d. d(char \<mapsto> int i)) (enumerate 0 (idx2char (LabelConverter_init sl None loss))) Map.empty"
  by (simp add: LabelConverter_init_def)

lemma char2idx_nth:
  "i < 97 \<Longrightarrow> char2idx (LabelConverter_init sl None loss) (idx2char (LabelConverter_init sl None loss) ! i) = Some (int i)"
  using fold_enumerate_distinct [OF distinct_idx2char, of i sl loss 0 Map.empty]
  by (simp add: char2idx_init) (simp add: idx2char_init length_Lexicon)

lemma dom_char2idx:
  "dom (char2idx (LabelConverter_init sl None loss)) = set (idx2char (LabelConverter_init sl None loss))"
  by (simp add: char2idx_init fold_enumerate_dom)

lemma char2idx_PAD: "char2idx (LabelConverter_init sl None loss) (str ''[PAD]'') = Some 0"
  using char2idx_nth [of 0 sl loss] by (simp add: idx2char_init)

lemma char2idx_STOP: "char2idx (LabelConverter_init sl None loss) (str ''[STOP]'') = Some 1"
  using char2idx_nth [of 1 sl loss] by (simp add: idx2char_init)

section \<open>What encode returns\<close>

lemma lookups_Inr:
  "set ks \<subseteq> dom d \<Longrightarrow> lookups d ks = Inr (map (\<lambda>k. the (d k)) ks)"
  by (induction ks) auto

lemma lookups_Inl:
  "\<not> set ks \<subseteq> dom d \<Longrightarrow> lookups d ks = Inl KeyError"
proof (induction ks)
  case Nil
  then show ?case by simp
next
  case (Cons k ks)
  show ?case
  proof (cases "d k")
    case None
    then show ?thesis by simp
  next
    case (Some v)
    with Cons.prems have "\<not> set ks \<subseteq> dom d" by auto
    with Cons.IH Some show ?thesis by simp
  qed
qed

lemma lookups_Inl_iff:
  "lookups d ks = Inl e \<longleftrightarrow> e = KeyError \<and> \<not> set ks \<subseteq> dom d"
  by (cases "set ks \<subseteq> dom d") (auto simp: lookups_Inr lookups_Inl)

lemma char2idx_char:
  assumes "32 \<le> c" "c \<le> 126"
  shows "char2idx (LabelConverter_init sl None loss) [c] = Some (if c = 32 then 96 else int c - 31)"
proof (cases "c = 32")
  case True
  have "idx2char (LabelConverter_init sl None loss) ! 96 = [32]"
    by (simp add: idx2char_init Lexicon_Table_95_codes nth_append del: upt_rec_numeral)
  with char2idx_nth [of 96 sl loss] True show ?thesis by simp
next
  case False
  with assms have c: "33 \<le> c" "c \<le> 126" by simp_all
  then have "idx2char (LabelConverter_init sl None loss) ! (c - 31) = [c]"
    by (simp add: idx2char_init Lexicon_Table_95_codes nth_append nth_Cons' del: upt_rec_numeral)
  with char2idx_nth [of "c - 31" sl loss] c False show ?thesis by simp
qed

lemma single_in_idx2char:
  "[c] \<in> set (idx2char (LabelConverter_init sl None loss)) \<longleftrightarrow> [c] \<in> set Lexicon_Table_95"
  by (simp add: idx2char_init str_def)

lemma upper_char_lexicon:
  "32 \<le> c \<Longrightarrow> c \<le> 126 \<Longrightarrow>
   upper_char U c = [if 97 \<le> c \<and> c \<le> 122 then c - 32 else c]"
  by (simp add: upper_char_def)

lemma upper_lexicon:
  "\<forall>c\<in>set text. [c] \<in> set Lexicon_Table_95 \<Longrightarrow>
   upper U text = map (\<lambda>c. if 97 \<le> c \<and> c \<le> 122 then c - 32 else c) text"
  by (induction "text") (simp_all add: upper_def in_Lexicon_iff upper_char_lexicon)

lemma upper_in_lexicon:
  "\<forall>c\<in>set text. [c] \<in> set Lexicon_Table_95 \<Longrightarrow>
   \<forall>c\<in>set (upper U text). [c] \<in> set Lexicon_Table_95"
  by (auto simp: upper_lexicon in_Lexicon_iff)

lemma length_upper_lexicon:
  "\<forall>c\<in>set text. [c] \<in> set Lexicon_Table_95 \<Longrightarrow> length (upper U text) = length text"
  by (simp add: upper_lexicon)

lemma upper_Nil: "upper U [] = []"
  by (simp add: upper_def)

lemma symbols_in_dom:
  "set (map (\<lambda>c. [c]) u @ [str ''[STOP]'']) \<subseteq> dom (char2idx (LabelConverter_init sl None loss))
   \<longleftrightarrow> (\<forall>c\<in>set u. [c] \<in> set Lexicon_Table_95)"
  by (auto simp: dom_char2idx idx2char_init str_def)

lemma encode_unfold:
  "encode U (LabelConverter_init sl None loss) text ignore_tag =
     (let u = upper U (if ignore_tag then [] else text) in
      if \<forall>c\<in>set u. [c] \<in> set Lexicon_Table_95
      then (let raw = map (\<lambda>c. the (char2idx (LabelConverter_init sl None loss) [c])) u @ [1]
            in Inr (if int (length u) + 1 > sl then py_slice_to raw sl
                    else raw @ replicate (nat sl - (length u + 1)) 0, raw))
      else Inl KeyError)"
proof -
  let ?conv = "LabelConverter_init sl None loss"
  let ?u = "upper U (if ignore_tag then [] else text)"
  let ?syms = "map (\<lambda>c. [c]) ?u @ [str ''[STOP]'']"
  show ?thesis
  proof (cases "\<forall>c\<in>set ?u. [c] \<in> set Lexicon_Table_95")
    case True
    then have "set ?syms \<subseteq> dom (char2idx ?conv)" by (simp only: symbols_in_dom)
    then have "lookups (char2idx ?conv) ?syms = Inr (map (\<lambda>k. the (char2idx ?conv k)) ?syms)"
      by (rule lookups_Inr)
    also have "map (\<lambda>k. the (char2idx ?conv k)) ?syms
        = map (\<lambda>c. the (char2idx ?conv [c])) ?u @ [1]"
      by (simp add: char2idx_STOP comp_def)
    finally have lk: "lookups (char2idx ?conv) ?syms
        = Inr (map (\<lambda>c. the (char2idx ?conv [c])) ?u @ [1])" .
    have sl: "seq_len ?conv = sl" by (simp add: LabelConverter_init_def)
    have len: "int (length ?syms) = int (length ?u) + 1" by simp
    have n: "nat (int (length ?u) + 1) = length ?u + 1" by simp
    have "encode U ?conv text ignore_tag =
        (let raw = map (\<lambda>c. the (char2idx ?conv [c])) ?u @ [1]
         in Inr (if int (length ?u) + 1 > sl then py_slice_to raw sl
                 else raw @ drop (length ?u + 1) (py_repeat [0] sl), raw))"
      unfolding encode_def Let_def lk sl len n char2idx_PAD by simp
    also have "drop (length ?u + 1) (py_repeat [0::int] sl) = replicate (nat sl - (length ?u + 1)) 0"
      by (simp add: py_repeat_def)
    finally show ?thesis using True by (simp add: Let_def)
  next
    case False
    then have "\<not> set ?syms \<subseteq> dom (char2idx ?conv)" unfolding symbols_in_dom .
    then have lk: "lookups (char2idx ?conv) ?syms = Inl KeyError" by (rule lookups_Inl)
    have "encode U ?conv text ignore_tag = Inl KeyError"
      unfolding encode_def Let_def lk by simp
    then show ?thesis using False by (simp only: Let_def if_False)
  qed
qed

text \<open>
  C2, as stated, fails for a negative \<^verbatim>\<open>seq_len\<close>: with \<^verbatim>\<open>seq_len = -1\<close> the slice
  \<^verbatim>\<open>text_idx[:-1]\<close> only drops the stop token, and the padded sequence of \<^verbatim>\<open>"AB"\<close> has
  two entries.
\<close>

theorem encode_length_negative_seq_len:
  "encode (\<lambda>c. [c]) (LabelConverter_init (- 1) None (str ''CE'')) (str ''AB'') False
     = Inr ([34, 35], [34, 35, 1])
   \<and> int (length [34, 35 :: int]) \<noteq> - 1"
  by (simp add: encode_unfold Let_def upper_def upper_char_def str_def in_Lexicon_iff
        char2idx_char py_slice_to_def)

text \<open>
  C2 (amended): for every transcript over the 95 characters of the lexicon, every
  \<^verbatim>\<open>ignore_tag\<close> and every \<^verbatim>\<open>seq_len\<close> that is not negative, \<^verbatim>\<open>encode\<close> succeeds and its
  first component has exactly \<^verbatim>\<open>seq_len\<close> entries: the indices of the transcript and of the
  stop token, cut to \<^verbatim>\<open>seq_len\<close> when longer and filled up with the pad index 0 otherwise.
\<close>

theorem encode_padded_length:
  assumes "\<forall>c\<in>set text. [c] \<in> set Lexicon_Table_95" and "0 \<le> sl"
  shows "\<exists>padded raw.
           encode U (LabelConverter_init sl None loss) text ignore_tag = Inr (padded, raw)
         \<and> int (length padded) = sl
         \<and> length raw = length (if ignore_tag then [] else text) + 1
         \<and> last raw = 1
         \<and> padded = (if int (length raw) > sl then take (nat sl) raw
                      else raw @ replicate (nat sl - length raw) 0)"
proof -
  let ?t = "if ignore_tag then [] else text"
  let ?conv = "LabelConverter_init sl None loss"
  let ?raw = "map (\<lambda>c. the (char2idx ?conv [c])) (upper U ?t) @ [1]"
  from assms(1) have lex: "\<forall>c\<in>set ?t. [c] \<in> set Lexicon_Table_95" by simp
  then have up: "\<forall>c\<in>set (upper U ?t). [c] \<in> set Lexicon_Table_95"
    by (rule upper_in_lexicon)
  have len: "length (upper U ?t) = length ?t"
    using lex by (rule length_upper_lexicon)
  have enc: "encode U ?conv text ignore_tag =
      Inr (if int (length (upper U ?t)) + 1 > sl then py_slice_to ?raw sl
           else ?raw @ replicate (nat sl - (length (upper U ?t) + 1)) 0, ?raw)"
    using up by (simp add: encode_unfold Let_def)
  have lraw: "length ?raw = length ?t + 1" by (simp add: len)
  show ?thesis
  proof (intro exI conjI)
    show "encode U ?conv text ignore_tag =
      Inr (if int (length (upper U ?t)) + 1 > sl then py_slice_to ?raw sl
           else ?raw @ replicate (nat sl - (length (upper U ?t) + 1)) 0, ?raw)"
      by (rule enc)
    show "int (length (if int (length (upper U ?t)) + 1 > sl then py_slice_to ?raw sl
           else ?raw @ replicate (nat sl - (length (upper U ?t) + 1)) 0)) = sl"
      using assms(2) by (auto simp: py_slice_to_def len)
    show "length ?raw = length ?t + 1" by (rule lraw)
    show "last ?raw = 1" by simp
    show "(if int (length (upper U ?t)) + 1 > sl then py_slice_to ?raw sl
           else ?raw @ replicate (nat sl - (length (upper U ?t) + 1)) 0)
        = (if int (length ?raw) > sl then take (nat sl) ?raw
           else ?raw @ replicate (nat sl - length ?raw) 0)"
      using assms(2) by (simp add: py_slice_to_def len)
  qed
qed

theorem encode_padded_length_witness:
  "\<exists>padded raw.
     encode (\<lambda>c. [c]) (LabelConverter_init 5 None (str ''CE'')) (str ''ab'') False = Inr (padded, raw)
   \<and> int (length padded) = 5
   \<and> length raw = length (if False then [] else str ''ab'') + 1
   \<and> last raw = 1
   \<and> padded = (if int (length raw) > 5 then take (nat 5) raw
                else raw @ replicate (nat 5 - length raw) 0)"
  by (rule encode_padded_length) (simp_all add: str_def in_Lexicon_iff)

text \<open>
  C6: \<^verbatim>\<open>encode\<close> raises KeyError exactly when \<^verbatim>\<open>ignore_tag\<close> is not set and the
  uppercased transcript has a character outside the 97 symbols of \<^verbatim>\<open>idx2char\<close>; it
  raises nothing else, and with \<^verbatim>\<open>ignore_tag\<close> set it always returns.
\<close>

theorem encode_KeyError_iff:
  "(encode U (LabelConverter_init sl None loss) text ignore_tag = Inl KeyError)
     = (\<not> ignore_tag \<and>
        (\<exists>c\<in>set (upper U text). [c] \<notin> set (idx2char (LabelConverter_init sl None loss))))
   \<and> (\<forall>e. encode U (LabelConverter_init sl None loss) text ignore_tag = Inl e \<longrightarrow> e = KeyError)
   \<and> (\<exists>r. encode U (LabelConverter_init sl None loss) text True = Inr r)
   \<and> length (idx2char (LabelConverter_init sl None loss)) = 97"
proof (intro conjI)
  show "(encode U (LabelConverter_init sl None loss) text ignore_tag = Inl KeyError)
     = (\<not> ignore_tag \<and>
        (\<exists>c\<in>set (upper U text). [c] \<notin> set (idx2char (LabelConverter_init sl None loss))))"
    by (auto simp: encode_unfold Let_def upper_Nil single_in_idx2char split: if_splits)
  show "\<forall>e. encode U (LabelConverter_init sl None loss) text ignore_tag = Inl e \<longrightarrow> e = KeyError"
    by (auto simp: encode_unfold Let_def split: if_splits)
  show "\<exists>r. encode U (LabelConverter_init sl None loss) text True = Inr r"
    by (simp add: encode_unfold Let_def upper_Nil)
  show "length (idx2char (LabelConverter_init sl None loss)) = 97"
    by (simp add: idx2char_init length_Lexicon)
qed

theorem encode_KeyError_iff_witness:
  "encode (\<lambda>c. [c]) (LabelConverter_init 50 None (str ''CE'')) [97, 9, 98] False = Inl KeyError
   \<and> (\<exists>r. encode (\<lambda>c. [c]) (LabelConverter_init 50 None (str ''CE'')) [97, 9, 98] True = Inr r)"
proof -
  note inst = encode_KeyError_iff [of "\<lambda>c. [c]" 50 "str ''CE''" "[97, 9, 98]" False]
  have "\<not> False \<and> (\<exists>c\<in>set (upper (\<lambda>c. [c]) [97, 9, 98]).
           [c] \<notin> set (idx2char (LabelConverter_init 50 None (str ''CE''))))"
    by (simp add: upper_def upper_char_def single_in_idx2char in_Lexicon_iff)
  with inst show ?thesis by blast
qed

section \<open>Searching for the stop token\<close>

lemma py_find_empty_sub: "py_find s [] = 0"
  by (cases s) simp_all

lemma py_find_ge: "- 1 \<le> py_find s sub"
  by (induction s) (simp_all add: Let_def)

lemma py_find_Cons_miss:
  "py_find (c # s) sub = - 1 \<longleftrightarrow> \<not> prefix sub (c # s) \<and> py_find s sub = - 1"
  using py_find_ge [of s sub] by (simp add: Let_def)

lemma py_find_fits:
  "py_find s sub \<noteq> - 1 \<Longrightarrow> py_find s sub + int (length sub) \<le> int (length s)"
proof (induction s)
  case Nil
  then show ?case by (simp split: if_splits)
next
  case (Cons c s)
  show ?case
  proof (cases "prefix sub (c # s)")
    case True
    then show ?thesis using prefix_length_le [OF True] by simp
  next
    case False
    with Cons show ?thesis by (simp add: Let_def split: if_splits)
  qed
qed

lemma prefix_append_short:
  "prefix xs (ys @ zs) \<Longrightarrow> length xs \<le> length ys \<Longrightarrow> prefix xs ys"
  by (auto simp: prefix_append)

lemma py_find_append_found:
  "py_find u sub \<noteq> - 1 \<Longrightarrow> py_find (u @ r) sub = py_find u sub"
proof (induction u)
  case Nil
  then show ?case by (simp add: py_find_empty_sub split: if_splits)
next
  case (Cons c u)
  show ?case
  proof (cases "prefix sub (c # u)")
    case True
    then have "prefix sub (c # u @ r)" using prefix_prefix [of sub "c # u" r] by simp
    with True show ?thesis by simp
  next
    case False
    with Cons.prems have k: "py_find u sub \<noteq> - 1" by (simp add: Let_def split: if_splits)
    then have "int (length sub) \<le> int (length u)"
      using py_find_fits [OF k] py_find_ge [of u sub] by linarith
    then have "\<not> prefix sub (c # u @ r)"
      using False prefix_append_short [of sub "c # u" r] by auto
    with False k Cons.IH show ?thesis by (simp add: Let_def)
  qed
qed

lemma STOP_codes: "str ''[STOP]'' = [91, 83, 84, 79, 80, 93]"
  by (simp add: str_def)

lemma PAD_codes: "str ''[PAD]'' = [91, 80, 65, 68, 93]"
  by (simp add: str_def)

lemma STOP_no_border:
  "w \<noteq> [] \<Longrightarrow> \<not> prefix (str ''[STOP]'') w \<Longrightarrow> \<not> prefix (str ''[STOP]'') (w @ str ''[STOP]'' @ r)"
  by (auto simp: STOP_codes prefix_append Cons_eq_append_conv)

lemma py_find_append_STOP:
  "py_find u (str ''[STOP]'') = - 1 \<Longrightarrow>
   py_find (u @ str ''[STOP]'' @ r) (str ''[STOP]'') = int (length u)"
proof (induction u)
  case Nil
  then show ?case by (simp add: STOP_codes)
next
  case (Cons c u)
  from Cons.prems have miss: "\<not> prefix (str ''[STOP]'') (c # u)"
    and rest: "py_find u (str ''[STOP]'') = - 1"
    unfolding py_find_Cons_miss by blast+
  have "\<not> prefix (str ''[STOP]'') ((c # u) @ str ''[STOP]'' @ r)"
    using miss by (intro STOP_no_border) simp_all
  with Cons.IH [OF rest] show ?case by (simp add: Let_def)
qed

lemma cut_at_stop_append:
  "cut_at_stop (u @ str ''[STOP]'' @ r) = cut_at_stop u"
proof (cases "py_find u (str ''[STOP]'') = - 1")
  case True
  then show ?thesis
    by (simp add: cut_at_stop_def py_find_append_STOP py_slice_to_def)
next
  case False
  have "0 \<le> py_find u (str ''[STOP]'')"
    using False py_find_ge [of u "str ''[STOP]''"] by linarith
  moreover have "py_find u (str ''[STOP]'') \<le> int (length u)"
    using py_find_fits [OF False] by simp
  ultimately show ?thesis using False
    by (simp add: cut_at_stop_def py_find_append_found py_slice_to_def)
qed

lemma cut_at_stop_miss: "py_find u (str ''[STOP]'') = - 1 \<Longrightarrow> cut_at_stop u = u"
  by (simp add: cut_at_stop_def)

section \<open>Decoding what encode returns\<close>

lemma getitems_append:
  "getitems t (xs @ ys) =
     (case getitems t xs of
        Inl e \<Rightarrow> Inl e
      | Inr a \<Rightarrow> (case getitems t ys of Inl e \<Rightarrow> Inl e | Inr b \<Rightarrow> Inr (a @ b)))"
  by (induction xs) (simp_all split: sum.splits)

lemma getitems_replicate:
  "getitem t i = Inr x \<Longrightarrow> getitems t (replicate k i) = Inr (replicate k x)"
  by (induction k) simp_all

lemma getitem_PAD: "getitem (idx2char (LabelConverter_init sl None loss)) 0 = Inr (str ''[PAD]'')"
  by (simp add: getitem_def idx2char_init)

lemma getitem_STOP: "getitem (idx2char (LabelConverter_init sl None loss)) 1 = Inr (str ''[STOP]'')"
  by (simp add: getitem_def idx2char_init)

lemma getitem_char:
  assumes "32 \<le> c" "c \<le> 126"
  shows "getitem (idx2char (LabelConverter_init sl None loss))
           (the (char2idx (LabelConverter_init sl None loss) [c])) = Inr [c]"
proof (cases "c = 32")
  case True
  have "idx2char (LabelConverter_init sl None loss) ! 96 = [32]"
    by (simp add: idx2char_init Lexicon_Table_95_codes nth_append del: upt_rec_numeral)
  then show ?thesis using True assms
    by (simp add: char2idx_char getitem_def) (simp add: idx2char_init length_Lexicon)
next
  case False
  with assms have c: "33 \<le> c" "c \<le> 126" by simp_all
  then have "idx2char (LabelConverter_init sl None loss) ! (c - 31) = [c]"
    by (simp add: idx2char_init Lexicon_Table_95_codes nth_append nth_Cons' del: upt_rec_numeral)
  moreover have "nat (int c - 31) = c - 31" by simp
  ultimately show ?thesis using False assms c
    by (simp add: char2idx_char getitem_def) (simp add: idx2char_init length_Lexicon)
qed

lemma getitems_chars:
  "\<forall>c\<in>set u. [c] \<in> set Lexicon_Table_95 \<Longrightarrow>
   getitems (idx2char (LabelConverter_init sl None loss))
     (map (\<lambda>c. the (char2idx (LabelConverter_init sl None loss) [c])) u)
     = Inr (map (\<lambda>c. [c]) u)"
  by (induction u) (simp_all add: in_Lexicon_iff getitem_char)

lemma concat_singletons: "concat (map (\<lambda>c. [c]) u) = u"
  by (induction u) simp_all

lemma decode_CE:
  "decode (LabelConverter_init sl None (str ''CE'')) idxs =
     (case getitems (idx2char (LabelConverter_init sl None (str ''CE''))) idxs of
        Inl e \<Rightarrow> Inl e
      | Inr cs \<Rightarrow> Inr (cut_at_stop (concat cs)))"
proof -
  have "recg_loss (LabelConverter_init sl None (str ''CE'')) = str ''CE''"
    by (simp add: LabelConverter_init_def)
  then show ?thesis
    by (simp add: decode_def cut_at_stop_def split: sum.splits)
qed

lemma idx2char_codes:
  "idx2char (LabelConverter_init sl None loss) =
     [91, 80, 65, 68, 93] # [91, 83, 84, 79, 80, 93] # map (\<lambda>c. [c]) ([33..<127] @ [32])"
  by (simp only: idx2char_init Lexicon_Table_95_codes STOP_codes PAD_codes append_Cons append_Nil)

lemma idx2char_nth:
  assumes "m \<le> 93"
  shows "idx2char (LabelConverter_init sl None loss) ! (m + 2) = [m + 33]"
proof -
  have "idx2char (LabelConverter_init sl None loss) ! (m + 2)
      = map (\<lambda>c. [c]) ([33..<127] @ [32]) ! m"
    by (simp only: idx2char_codes) simp
  also have "\<dots> = [([33..<127] @ [32]) ! m]"
    using assms by (intro nth_map) (simp del: upt_rec_numeral)
  also have "([33..<127] @ [32]) ! m = 33 + m"
    using assms by (simp add: nth_append del: upt_rec_numeral)
  finally show ?thesis by (simp add: add.commute)
qed

lemma getitem_lexicon:
  assumes "2 \<le> i" "i \<le> 95"
  shows "getitem (idx2char (LabelConverter_init sl None loss)) i = Inr [nat i + 31]"
proof -
  from assms have k: "nat i - 2 \<le> 93" "nat i - 2 + 2 = nat i" "nat i - 2 + 33 = nat i + 31"
    by linarith+
  have "idx2char (LabelConverter_init sl None loss) ! (nat i - 2 + 2) = [nat i - 2 + 33]"
    by (rule idx2char_nth [OF k(1)])
  then have "idx2char (LabelConverter_init sl None loss) ! nat i = [nat i + 31]"
    by (simp only: k)
  then show ?thesis using assms
    by (simp add: getitem_def) (simp add: idx2char_init length_Lexicon)
qed

lemma concat_replicate_single: "concat (replicate n [x]) = replicate n x"
  by (induction n) simp_all

lemma py_find_absent: "sub \<noteq> [] \<Longrightarrow> hd sub \<notin> set s \<Longrightarrow> py_find s sub = - 1"
  by (induction s) (cases sub; auto simp: Let_def)+

text \<open>
  C1, as stated, fails in two ways with the default \<^verbatim>\<open>seq_len = 50\<close>. A transcript of 51
  letters is cut to 50 indices with no stop token among them, and decoding gives 50
  letters. A transcript that contains the six characters \<^verbatim>\<open>[stop]\<close> is decoded up to the
  first place where \<^verbatim>\<open>[STOP]\<close> is spelled out, here after one letter.
\<close>

theorem decode_encode_CE_counterexample:
  "encode (\<lambda>c. [c]) (LabelConverter_init 50 None (str ''CE'')) (replicate 51 97) False
     = Inr (replicate 50 34, replicate 51 34 @ [1])
   \<and> decode (LabelConverter_init 50 None (str ''CE'')) (replicate 50 34) = Inr (replicate 50 65)
   \<and> upper (\<lambda>c. [c]) (replicate 51 97) = replicate 51 65
   \<and> replicate 50 65 \<noteq> replicate 51 (65 :: nat)
   \<and> encode (\<lambda>c. [c]) (LabelConverter_init 50 None (str ''CE'')) (str ''a[stop]b'') False
     = Inr ([34, 60, 52, 53, 48, 49, 62, 35, 1] @ replicate 41 0,
            [34, 60, 52, 53, 48, 49, 62, 35, 1])
   \<and> decode (LabelConverter_init 50 None (str ''CE''))
        ([34, 60, 52, 53, 48, 49, 62, 35, 1] @ replicate 41 0) = Inr (str ''A'')
   \<and> upper (\<lambda>c. [c]) (str ''a[stop]b'') = str ''A[STOP]B''
   \<and> str ''A'' \<noteq> str ''A[STOP]B''"
proof (intro conjI)
  have up1: "upper (\<lambda>c. [c]) (replicate 51 97) = replicate 51 65"
    by (simp add: upper_def upper_char_def)
  show "upper (\<lambda>c. [c]) (replicate 51 97) = replicate 51 65" by (rule up1)
  show "encode (\<lambda>c. [c]) (LabelConverter_init 50 None (str ''CE'')) (replicate 51 97) False
     = Inr (replicate 50 34, replicate 51 34 @ [1])"
    by (simp add: encode_unfold up1 Let_def in_Lexicon_iff char2idx_char py_slice_to_def)
  show "decode (LabelConverter_init 50 None (str ''CE'')) (replicate 50 34) = Inr (replicate 50 65)"
  proof -
    have "getitems (idx2char (LabelConverter_init 50 None (str ''CE''))) (replicate 50 34)
        = Inr (replicate 50 [65])"
      by (rule getitems_replicate) (simp add: getitem_lexicon)
    moreover have "py_find (replicate 50 (65 :: nat)) (str ''[STOP]'') = - 1"
      by (rule py_find_absent) (simp_all add: STOP_codes)
    ultimately show ?thesis
      by (simp only: decode_CE sum.case concat_replicate_single cut_at_stop_miss)
  qed
  show "replicate 50 65 \<noteq> replicate 51 (65 :: nat)" by simp
  have up2: "upper (\<lambda>c. [c]) (str ''a[stop]b'') = str ''A[STOP]B''"
    by (simp add: upper_def upper_char_def str_def)
  show "upper (\<lambda>c. [c]) (str ''a[stop]b'') = str ''A[STOP]B''" by (rule up2)
  show "encode (\<lambda>c. [c]) (LabelConverter_init 50 None (str ''CE'')) (str ''a[stop]b'') False
     = Inr ([34, 60, 52, 53, 48, 49, 62, 35, 1] @ replicate 41 0,
            [34, 60, 52, 53, 48, 49, 62, 35, 1])"
    by (simp add: encode_unfold up2 Let_def) (simp add: str_def in_Lexicon_iff char2idx_char)
  show "decode (LabelConverter_init 50 None (str ''CE''))
        ([34, 60, 52, 53, 48, 49, 62, 35, 1] @ replicate 41 0) = Inr (str ''A'')"
  proof -
    have "getitems (idx2char (LabelConverter_init 50 None (str ''CE'')))
            ([34, 60, 52, 53, 48, 49, 62, 35, 1] @ replicate 41 0)
        = Inr (map (\<lambda>c. [c]) (str ''A[STOP]B'') @ [str ''[STOP]''] @ replicate 41 (str ''[PAD]''))"
      by (simp add: getitems_append getitems_replicate [OF getitem_PAD] getitem_STOP
            getitem_lexicon)
         (simp add: str_def)
    then have "decode (LabelConverter_init 50 None (str ''CE''))
            ([34, 60, 52, 53, 48, 49, 62, 35, 1] @ replicate 41 0)
        = Inr (cut_at_stop (str ''A[STOP]B'' @ str ''[STOP]''
                 @ concat (replicate 41 (str ''[PAD]''))))"
      by (simp add: decode_CE concat_singletons)
    also have "\<dots> = Inr (cut_at_stop (str ''A[STOP]B''))"
      by (simp only: cut_at_stop_append)
    also have "cut_at_stop (str ''A[STOP]B'') = str ''A''"
      by (simp add: cut_at_stop_def str_def py_slice_to_def)
    finally show ?thesis .
  qed
  show "str ''A'' \<noteq> str ''A[STOP]B''" by (simp add: str_def)
qed

text \<open>
  C1 (amended): for every transcript over the 95 characters of the lexicon and every
  \<^verbatim>\<open>seq_len\<close> that is not negative, decoding in CE mode the padded sequence of
  \<^verbatim>\<open>encode(text, False)\<close> gives the uppercased transcript cut to its first \<^verbatim>\<open>seq_len\<close>
  characters and then cut before the first place where \<^verbatim>\<open>[STOP]\<close> is spelled out. It is
  the whole uppercased transcript when the transcript has at most \<^verbatim>\<open>seq_len\<close> characters
  and its uppercase form does not contain \<^verbatim>\<open>[STOP]\<close>.
\<close>

theorem decode_encode_CE:
  assumes "\<forall>c\<in>set text. [c] \<in> set Lexicon_Table_95" and "0 \<le> sl"
  shows "\<exists>padded raw.
           encode U (LabelConverter_init sl None (str ''CE'')) text False = Inr (padded, raw)
         \<and> decode (LabelConverter_init sl None (str ''CE'')) padded
             = Inr (cut_at_stop (take (nat sl) (upper U text)))
         \<and> (int (length text) \<le> sl \<and> py_find (upper U text) (str ''[STOP]'') = - 1
              \<longrightarrow> decode (LabelConverter_init sl None (str ''CE'')) padded = Inr (upper U text))"
proof -
  let ?conv = "LabelConverter_init sl None (str ''CE'')"
  let ?u = "upper U text"
  let ?idx = "\<lambda>c. the (char2idx ?conv [c])"
  let ?raw = "map ?idx ?u @ [1]"
  let ?padded = "if int (length ?u) + 1 > sl then py_slice_to ?raw sl
                 else ?raw @ replicate (nat sl - (length ?u + 1)) 0"
  have up: "\<forall>c\<in>set ?u. [c] \<in> set Lexicon_Table_95"
    using assms(1) by (rule upper_in_lexicon)
  have len: "length ?u = length text"
    using assms(1) by (rule length_upper_lexicon)
  have enc: "encode U ?conv text False = Inr (?padded, ?raw)"
    using up by (simp add: encode_unfold Let_def)
  have dec: "decode ?conv ?padded = Inr (cut_at_stop (take (nat sl) ?u))"
  proof (cases "int (length ?u) + 1 > sl")
    case True
    then have short: "nat sl \<le> length ?u" using assms(2) by linarith
    have "?padded = map ?idx (take (nat sl) ?u)"
      using True short assms(2) by (simp add: py_slice_to_def take_map)
    moreover have "\<forall>c\<in>set (take (nat sl) ?u). [c] \<in> set Lexicon_Table_95"
      using up by (meson in_set_takeD)
    ultimately show ?thesis
      by (simp only: decode_CE getitems_chars sum.case concat_singletons)
  next
    case False
    then have long: "length ?u \<le> nat sl" by linarith
    have "getitems (idx2char ?conv) (?raw @ replicate (nat sl - (length ?u + 1)) 0)
        = Inr (map (\<lambda>c. [c]) ?u @ [str ''[STOP]'']
               @ replicate (nat sl - (length ?u + 1)) (str ''[PAD]''))"
      using up by (simp add: getitems_append getitems_chars getitem_STOP
          getitems_replicate [OF getitem_PAD])
    then have "decode ?conv ?padded
        = Inr (cut_at_stop (?u @ str ''[STOP]''
                 @ concat (replicate (nat sl - (length ?u + 1)) (str ''[PAD]''))))"
      using False by (simp add: decode_CE concat_singletons)
    then show ?thesis using long by (simp add: cut_at_stop_append)
  qed
  have "decode ?conv ?padded = Inr ?u"
    if "int (length text) \<le> sl" "py_find ?u (str ''[STOP]'') = - 1"
  proof -
    from that(1) len have "take (nat sl) ?u = ?u" by simp
    with dec that(2) show ?thesis by (simp add: cut_at_stop_miss)
  qed
  with enc dec show ?thesis by blast
qed

theorem decode_encode_CE_witness:
  "\<exists>padded raw.
     encode (\<lambda>c. [c]) (LabelConverter_init 50 None (str ''CE'')) (str ''Total: 42'') False
       = Inr (padded, raw)
   \<and> decode (LabelConverter_init 50 None (str ''CE'')) padded = Inr (str ''TOTAL: 42'')"
proof -
  have lex: "\<forall>c\<in>set (str ''Total: 42''). [c] \<in> set Lexicon_Table_95"
    by (simp add: str_def in_Lexicon_iff)
  have up: "upper (\<lambda>c. [c]) (str ''Total: 42'') = str ''TOTAL: 42''"
    by (simp add: upper_def upper_char_def str_def)
  have fits: "int (length (str ''Total: 42'')) \<le> 50
      \<and> py_find (upper (\<lambda>c. [c]) (str ''Total: 42'')) (str ''[STOP]'') = - 1"
    by (simp add: up) (simp add: str_def)
  from decode_encode_CE [OF lex, of 50 "\<lambda>c. [c]"] fits up show ?thesis
    by auto
qed

section \<open>CTC decoding\<close>

lemma collapse_repeats_Cons: "collapse_repeats (x # xs) = x # tl (collapse_repeats (x # xs))"
  by (induction xs arbitrary: x) simp_all

lemma no_adjacent_collapse: "no_adjacent_repeats (collapse_repeats xs)"
proof (induction xs rule: collapse_repeats.induct)
  case (3 x y xs)
  then show ?case
  proof (cases "x = y")
    case True
    with 3 show ?thesis by simp
  next
    case False
    obtain r where r: "collapse_repeats (y # xs) = y # r"
      using collapse_repeats_Cons [of y xs] by blast
    with 3 False show ?thesis by simp
  qed
qed simp_all

lemma ctc_loop_after:
  "ps \<noteq> [] \<Longrightarrow>
   map snd (filter (\<lambda>(i, t). t \<noteq> 0 \<and> (i = 0 \<or> t \<noteq> (ps @ xs) ! (i - 1)))
                   (enumerate (length ps) xs))
     = drop_blanks (tl (collapse_repeats (last ps # xs)))"
proof (induction xs arbitrary: ps)
  case Nil
  then show ?case by (simp add: drop_blanks_def)
next
  case (Cons x xs)
  have IH: "map snd (filter (\<lambda>(i, t). t \<noteq> 0 \<and> (i = 0 \<or> t \<noteq> ((ps @ [x]) @ xs) ! (i - 1)))
                   (enumerate (length (ps @ [x])) xs))
     = drop_blanks (tl (collapse_repeats (last (ps @ [x]) # xs)))"
    by (rule Cons.IH) simp
  have prev: "(ps @ x # xs) ! (length ps - 1) = last ps"
    using Cons.prems by (simp add: nth_append last_conv_nth)
  have pos: "length ps \<noteq> 0" using Cons.prems by simp
  show ?case
  proof (cases "x = last ps")
    case True
    with IH prev pos show ?thesis by (simp add: drop_blanks_def)
  next
    case False
    obtain r where r: "collapse_repeats (x # xs) = x # r"
      using collapse_repeats_Cons [of x xs] by blast
    have "collapse_repeats (last ps # x # xs) = last ps # x # r"
      using False r by simp
    with IH prev pos False r show ?thesis
      by (auto simp: drop_blanks_def)
  qed
qed

lemma ctc_keep_eq: "ctc_keep xs = drop_blanks (collapse_repeats xs)"
proof (cases xs)
  case Nil
  then show ?thesis by (simp add: ctc_keep_def drop_blanks_def)
next
  case (Cons x ys)
  have "ctc_keep (x # ys) = (if x \<noteq> 0 then [x] else []) @
      map snd (filter (\<lambda>(i, t). t \<noteq> 0 \<and> (i = 0 \<or> t \<noteq> ([x] @ ys) ! (i - 1)))
                   (enumerate (length [x]) ys))"
    by (simp add: ctc_keep_def)
  also have "\<dots> = (if x \<noteq> 0 then [x] else []) @ drop_blanks (tl (collapse_repeats (x # ys)))"
    using ctc_loop_after [of "[x]" ys] by simp
  also have "\<dots> = drop_blanks (x # tl (collapse_repeats (x # ys)))"
    by (simp add: drop_blanks_def)
  also have "\<dots> = drop_blanks (collapse_repeats (x # ys))"
    using collapse_repeats_Cons [of x ys] by simp
  finally show ?thesis using Cons by simp
qed

text \<open>
  C3: with \<^verbatim>\<open>recg_loss = "CTC"\<close>, \<^verbatim>\<open>decode\<close> equals the reference computation on every
  index sequence: collapse runs of equal neighbours, drop the blanks (index 0), map the
  remaining indices to characters, cut at the first stop token. The collapsed sequence
  has no two equal neighbours.
\<close>

theorem decode_ctc_refines:
  assumes "recg_loss self = str ''CTC''"
  shows "decode self text_idx = decode_ctc_reference (idx2char self) text_idx
         \<and> no_adjacent_repeats (collapse_repeats text_idx)"
proof -
  have "str ''CTC'' \<noteq> str ''CE''" by (simp add: str_def)
  with assms show ?thesis
    by (simp add: decode_def decode_ctc_reference_def ctc_keep_eq cut_at_stop_def
          no_adjacent_collapse split: sum.splits)
qed

theorem decode_ctc_refines_witness:
  "decode (LabelConverter_init 50 None (str ''CTC'')) [34, 34, 0, 34, 35, 35, 1, 36]
     = decode_ctc_reference (idx2char (LabelConverter_init 50 None (str ''CTC'')))
         [34, 34, 0, 34, 35, 35, 1, 36]
   \<and> no_adjacent_repeats (collapse_repeats [34, 34, 0, 34, 35, 35, 1, 36])
   \<and> decode_ctc_reference (idx2char (LabelConverter_init 50 None (str ''CTC'')))
         [34, 34, 0, 34, 35, 35, 1, 36] = Inr (str ''AAB'')"
proof -
  have loss: "recg_loss (LabelConverter_init 50 None (str ''CTC'')) = str ''CTC''"
    by (simp add: LabelConverter_init_def)
  have val: "decode_ctc_reference (idx2char (LabelConverter_init 50 None (str ''CTC'')))
         [34, 34, 0, 34, 35, 35, 1, 36] = Inr (str ''AAB'')"
  proof -
    have "getitems (idx2char (LabelConverter_init 50 None (str ''CTC''))) [34, 34, 35, 1, 36]
        = Inr [[65], [65], [66], str ''[STOP]'', [67]]"
      by (simp add: getitem_lexicon getitem_STOP)
    then show ?thesis
      by (simp add: decode_ctc_reference_def drop_blanks_def)
         (simp add: cut_at_stop_def str_def py_slice_to_def)
  qed
  from decode_ctc_refines [OF loss, of "[34, 34, 0, 34, 35, 35, 1, 36]"] val
  show ?thesis by blast
qed

section \<open>Parsing of annotations\<close>

lemma parse_words_counts:
  "parse_words ws r = Inr r' \<Longrightarrow>
   res_line r' = res_line r \<and> length (res_word r') = length (res_word r) + length ws"
proof (induction ws arbitrary: r)
  case Nil
  then show ?case by simp
next
  case (Cons w ws)
  then show ?case by (auto split: sum.splits)
qed

lemma parse_lines_counts:
  "parse_lines ls r = Inr r' \<Longrightarrow>
   length (res_line r') = length (res_line r) + length (filter (\<lambda>l. line_text l \<noteq> []) ls)
   \<and> length (res_word r') = length (res_word r)
        + sum_list (map (\<lambda>l. length (line_words l)) (filter (\<lambda>l. line_text l \<noteq> []) ls))"
proof (induction ls arbitrary: r)
  case Nil
  then show ?case by simp
next
  case (Cons l ls)
  show ?case
  proof (cases "line_text l = []")
    case True
    with Cons show ?thesis by simp
  next
    case False
    with Cons.prems obtain poly tc r1 where
      r1: "parse_words (line_words l)
             (r\<lparr>res_line := res_line r @ [(poly, filter_lexicon (line_text l), tc, False)]\<rparr>) = Inr r1"
      and rest: "parse_lines ls r1 = Inr r'"
      by (auto split: sum.splits option.splits)
    from parse_words_counts [OF r1] Cons.IH [OF rest] False show ?thesis by simp
  qed
qed

lemma parse_lines_all_empty:
  "\<forall>l\<in>set ls. line_text l = [] \<Longrightarrow> parse_lines ls r = Inr r"
  by (induction ls) simp_all

lemma parse_words_ignore:
  "parse_words ws r = Inr r' \<Longrightarrow>
   \<forall>e\<in>set (res_line r) \<union> set (res_word r). \<not> snd (snd (snd e)) \<Longrightarrow>
   \<forall>e\<in>set (res_line r') \<union> set (res_word r'). \<not> snd (snd (snd e))"
proof (induction ws arbitrary: r)
  case Nil
  then show ?case by simp
next
  case (Cons w ws)
  from Cons.prems(1) obtain poly where
    step: "parse_words ws
             (r\<lparr>res_word := res_word r @ [(poly, filter_lexicon (word_text w), - 1, False)]\<rparr>) = Inr r'"
    by (auto split: sum.splits)
  show ?case by (rule Cons.IH [OF step]) (use Cons.prems(2) in auto)
qed

lemma parse_lines_ignore:
  "parse_lines ls r = Inr r' \<Longrightarrow>
   \<forall>e\<in>set (res_line r) \<union> set (res_word r). \<not> snd (snd (snd e)) \<Longrightarrow>
   \<forall>e\<in>set (res_line r') \<union> set (res_word r'). \<not> snd (snd (snd e))"
proof (induction ls arbitrary: r)
  case Nil
  then show ?case by simp
next
  case (Cons l ls)
  show ?case
  proof (cases "line_text l = []")
    case True
    with Cons show ?thesis by simp
  next
    case False
    with Cons.prems(1) obtain poly tc r1 where
      r1: "parse_words (line_words l)
             (r\<lparr>res_line := res_line r @ [(poly, filter_lexicon (line_text l), tc, False)]\<rparr>) = Inr r1"
      and rest: "parse_lines ls r1 = Inr r'"
      by (auto split: sum.splits option.splits)
    have "\<forall>e\<in>set (res_line r1) \<union> set (res_word r1). \<not> snd (snd (snd e))"
      by (rule parse_words_ignore [OF r1]) (use Cons.prems(2) in auto)
    with rest show ?thesis by (rule Cons.IH)
  qed
qed

text \<open>
  C4: \<^verbatim>\<open>_parse_ann_info_funsd\<close> returns \<^verbatim>\<open>None\<close> exactly when the loop over the \<^verbatim>\<open>form\<close>
  list runs to its end and leaves the line collection or the word collection empty. When
  the loop runs to its end, that is the case exactly when every record has an empty
  transcript or no words. A \<^verbatim>\<open>form\<close> list whose records all have empty transcripts
  always gives \<^verbatim>\<open>None\<close>.
\<close>

theorem parse_ann_info_funsd_None_iff:
  "(parse_ann_info_funsd form = Inr None)
     = (\<exists>res. parse_lines form \<lparr>res_word = [], res_line = []\<rparr> = Inr res
              \<and> (res_line res = [] \<or> res_word res = []))
   \<and> ((\<exists>res. parse_lines form \<lparr>res_word = [], res_line = []\<rparr> = Inr res)
        \<longrightarrow> (parse_ann_info_funsd form = Inr None)
              = (\<forall>l\<in>set form. line_text l = [] \<or> line_words l = []))
   \<and> ((\<forall>l\<in>set form. line_text l = []) \<longrightarrow> parse_ann_info_funsd form = Inr None)"
proof (intro conjI impI)
  show "(parse_ann_info_funsd form = Inr None)
     = (\<exists>res. parse_lines form \<lparr>res_word = [], res_line = []\<rparr> = Inr res
              \<and> (res_line res = [] \<or> res_word res = []))"
    by (auto simp: parse_ann_info_funsd_def split: sum.splits)
next
  assume "\<exists>res. parse_lines form \<lparr>res_word = [], res_line = []\<rparr> = Inr res"
  then obtain res where res: "parse_lines form \<lparr>res_word = [], res_line = []\<rparr> = Inr res" ..
  from parse_lines_counts [OF res]
  have nl: "length (res_line res) = length (filter (\<lambda>l. line_text l \<noteq> []) form)"
    and nw: "length (res_word res)
        = sum_list (map (\<lambda>l. length (line_words l)) (filter (\<lambda>l. line_text l \<noteq> []) form))"
    by simp_all
  have "(res_line res = [] \<or> res_word res = []) = (\<forall>l\<in>set form. line_text l = [] \<or> line_words l = [])"
  proof
    assume "res_line res = [] \<or> res_word res = []"
    then have "length (res_word res) = 0"
      using nl nw by (auto simp: filter_empty_conv)
    with nw show "\<forall>l\<in>set form. line_text l = [] \<or> line_words l = []"
      by auto
  next
    assume "\<forall>l\<in>set form. line_text l = [] \<or> line_words l = []"
    then have "length (res_word res) = 0"
      unfolding nw by auto
    then show "res_line res = [] \<or> res_word res = []" by simp
  qed
  with res show "(parse_ann_info_funsd form = Inr None)
              = (\<forall>l\<in>set form. line_text l = [] \<or> line_words l = [])"
    by (simp add: parse_ann_info_funsd_def)
next
  assume "\<forall>l\<in>set form. line_text l = []"
  then have "parse_lines form \<lparr>res_word = [], res_line = []\<rparr> = Inr \<lparr>res_word = [], res_line = []\<rparr>"
    by (rule parse_lines_all_empty)
  then show "parse_ann_info_funsd form = Inr None"
    by (simp add: parse_ann_info_funsd_def)
qed

theorem parse_ann_info_funsd_None_iff_witness:
  "parse_ann_info_funsd
     [\<lparr>line_box = [], line_text = [], line_label = str ''unknown'',
       line_words = [\<lparr>word_box = [1, 2, 3, 4], word_text = str ''x''\<rparr>]\<rparr>,
      \<lparr>line_box = [10, 20, 30, 40], line_text = [], line_label = str ''header'',
       line_words = []\<rparr>] = Inr None"
proof -
  let ?form = "[\<lparr>line_box = [], line_text = [], line_label = str ''unknown'',
       line_words = [\<lparr>word_box = [1, 2, 3, 4], word_text = str ''x''\<rparr>]\<rparr>,
      \<lparr>line_box = [10, 20, 30, 40], line_text = [], line_label = str ''header'',
       line_words = []\<rparr>]"
  have "\<forall>l\<in>set ?form. line_text l = []" by simp
  with parse_ann_info_funsd_None_iff [of ?form] show ?thesis by blast
qed

text \<open>
  C9: whenever \<^verbatim>\<open>_parse_ann_info_funsd\<close> returns a result, every entry of its line
  collection and of its word collection has the ignore flag \<^verbatim>\<open>False\<close>.
\<close>

theorem parse_ann_info_funsd_ignore_False:
  assumes "parse_ann_info_funsd form = Inr (Some res)"
  shows "\<forall>e\<in>set (res_line res) \<union> set (res_word res). snd (snd (snd e)) = False"
proof -
  from assms have "parse_lines form \<lparr>res_word = [], res_line = []\<rparr> = Inr res"
    by (auto simp: parse_ann_info_funsd_def split: sum.splits if_splits)
  from parse_lines_ignore [OF this] show ?thesis by simp
qed

lemma TEXT_CLASSES_question: "TEXT_CLASSES (str ''question'') = Some 0"
  by (simp add: TEXT_CLASSES_def str_def)

theorem parse_ann_info_funsd_ignore_False_witness:
  "parse_ann_info_funsd
     [\<lparr>line_box = [10, 20, 50, 30], line_text = str ''Date:'', line_label = str ''question'',
       line_words = [\<lparr>word_box = [10, 20, 50, 30], word_text = str ''Date:''\<rparr>]\<rparr>]
     = Inr (Some \<lparr>res_word = [([10, 20, 50, 20, 50, 30, 10, 30], str ''Date:'', - 1, False)],
                  res_line = [([10, 20, 50, 20, 50, 30, 10, 30], str ''Date:'', 0, False)]\<rparr>)
   \<and> list_all (\<lambda>e. snd (snd (snd e)) = False)
        (res_line \<lparr>res_word = [([10, 20, 50, 20, 50, 30, 10, 30], str ''Date:'', - 1, False)],
                  res_line = [([10, 20, 50, 20, 50, 30, 10, 30], str ''Date:'', 0, False)]\<rparr>
         @ res_word \<lparr>res_word = [([10, 20, 50, 20, 50, 30, 10, 30], str ''Date:'', - 1, False)],
                  res_line = [([10, 20, 50, 20, 50, 30, 10, 30], str ''Date:'', 0, False)]\<rparr>)"
proof -
  have flt: "filter_lexicon (str ''Date:'') = str ''Date:''"
    by (simp add: filter_lexicon_def in_Lexicon_iff str_def)
  have run: "parse_ann_info_funsd
     [\<lparr>line_box = [10, 20, 50, 30], line_text = str ''Date:'', line_label = str ''question'',
       line_words = [\<lparr>word_box = [10, 20, 50, 30], word_text = str ''Date:''\<rparr>]\<rparr>]
     = Inr (Some \<lparr>res_word = [([10, 20, 50, 20, 50, 30, 10, 30], str ''Date:'', - 1, False)],
                  res_line = [([10, 20, 50, 20, 50, 30, 10, 30], str ''Date:'', 0, False)]\<rparr>)"
    by (simp add: parse_ann_info_funsd_def bbox2poly_def TEXT_CLASSES_question flt)
       (simp add: str_def)
  from parse_ann_info_funsd_ignore_False [OF run] run show ?thesis
    by (simp add: list_all_iff)
qed

section \<open>Ordering of boxes\<close>

text \<open>
  C5: \<^verbatim>\<open>_sort_box_with_list\<close> returns a permutation of the entries in which, for any two
  positions \<open>i < j\<close>, the centre at \<open>i\<close> comes first in the order by \<open>(y, x)\<close> when
  \<^verbatim>\<open>left_right_first\<close> is false (smaller \<open>y\<close>, or equal \<open>y\<close> and \<open>x\<close> not larger) and by
  \<open>(x, y)\<close> when it is true. Entries with the same key keep their input order.
\<close>

theorem sort_box_with_list_ordered:
  "mset (sort_box_with_list center anno left_right_first) = mset anno
   \<and> (\<forall>i j. i < j \<and> j < length anno \<longrightarrow>
        (let a = center (fst (sort_box_with_list center anno left_right_first ! i));
             b = center (fst (sort_box_with_list center anno left_right_first ! j))
         in if left_right_first
            then fst a < fst b \<or> (fst a = fst b \<and> snd a \<le> snd b)
            else snd a < snd b \<or> (snd a = snd b \<and> fst a \<le> fst b)))
   \<and> (\<forall>k. filter (\<lambda>x. compare_key center left_right_first x = k)
              (sort_box_with_list center anno left_right_first)
          = filter (\<lambda>x. compare_key center left_right_first x = k) anno)"
proof (intro conjI allI impI)
  show "mset (sort_box_with_list center anno left_right_first) = mset anno"
    by (simp add: sort_box_with_list_def)
next
  fix i j
  assume ij: "i < j \<and> j < length anno"
  let ?r = "sort_box_with_list center anno left_right_first"
  let ?key = "compare_key center left_right_first"
  have "sorted (map ?key ?r)" by (simp add: sort_box_with_list_def)
  moreover have "length ?r = length anno" by (simp add: sort_box_with_list_def)
  ultimately have "map ?key ?r ! i \<le> map ?key ?r ! j"
    using ij by (intro sorted_nth_mono) simp_all
  then have "?key (?r ! i) \<le> ?key (?r ! j)"
    using ij \<open>length ?r = length anno\<close> by simp
  then show "let a = center (fst (?r ! i)); b = center (fst (?r ! j))
         in if left_right_first
            then fst a < fst b \<or> (fst a = fst b \<and> snd a \<le> snd b)
            else snd a < snd b \<or> (snd a = snd b \<and> fst a \<le> fst b)"
    by (auto simp: compare_key_def Let_def less_eq_prod_def split: if_splits)
next
  fix k
  show "filter (\<lambda>x. compare_key center left_right_first x = k)
              (sort_box_with_list center anno left_right_first)
          = filter (\<lambda>x. compare_key center left_right_first x = k) anno"
    by (simp add: sort_box_with_list_def sort_key_stable)
qed

theorem sort_box_with_list_ordered_witness:
  "sort_box_with_list (\<lambda>p. ((p ! 0 + p ! 2) / 2, (p ! 1 + p ! 5) / 2))
     [([0, 1, 2, 1, 2, 3, 0, 3], str ''low'', 1, False),
      ([4, 0, 6, 0, 6, 2, 4, 2], str ''high'', 0, False)] False
   = [([4, 0, 6, 0, 6, 2, 4, 2], str ''high'', 0, False),
      ([0, 1, 2, 1, 2, 3, 0, 3], str ''low'', 1, False)]
   \<and> (let a = (\<lambda>p. ((p ! 0 + p ! 2) / 2, (p ! 1 + p ! 5) / 2))
               (fst (sort_box_with_list (\<lambda>p. ((p ! 0 + p ! 2) / 2, (p ! 1 + p ! 5) / 2))
                 [([0, 1, 2, 1, 2, 3, 0, 3], str ''low'', 1, False),
                  ([4, 0, 6, 0, 6, 2, 4, 2], str ''high'', 0, False)] False ! 0));
            b = (\<lambda>p. ((p ! 0 + p ! 2) / 2, (p ! 1 + p ! 5) / 2))
               (fst (sort_box_with_list (\<lambda>p. ((p ! 0 + p ! 2) / 2, (p ! 1 + p ! 5) / 2))
                 [([0, 1, 2, 1, 2, 3, 0, 3], str ''low'', 1, False),
                  ([4, 0, 6, 0, 6, 2, 4, 2], str ''high'', 0, False)] False ! 1))
        in snd a < snd b \<and> fst b < fst a)"
proof -
  let ?c = "\<lambda>p :: real list. ((p ! 0 + p ! 2) / 2, (p ! 1 + p ! 5) / 2)"
  let ?anno = "[([0, 1, 2, 1, 2, 3, 0, 3], str ''low'', 1, False),
                ([4, 0, 6, 0, 6, 2, 4, 2], str ''high'', 0, False)] :: anno_entry list"
  have run: "sort_box_with_list ?c ?anno False
      = [([4, 0, 6, 0, 6, 2, 4, 2], str ''high'', 0, False),
         ([0, 1, 2, 1, 2, 3, 0, 3], str ''low'', 1, False)]"
    by (simp add: sort_box_with_list_def compare_key_def less_eq_prod_def)
  have "(0 :: nat) < 1 \<and> 1 < length ?anno" by simp
  with sort_box_with_list_ordered [of ?c ?anno False]
  have "let a = ?c (fst (sort_box_with_list ?c ?anno False ! 0));
            b = ?c (fst (sort_box_with_list ?c ?anno False ! 1))
        in if False then fst a < fst b \<or> (fst a = fst b \<and> snd a \<le> snd b)
           else snd a < snd b \<or> (snd a = snd b \<and> fst a \<le> fst b)"
    by blast
  with run show ?thesis by (simp add: Let_def)
qed

section \<open>Modes of Pixels\<close>

lemma mode_names_distinct:
  "str ''rand'' \<noteq> str ''pixel''" "str ''rand'' \<noteq> str ''const''" "str ''pixel'' \<noteq> str ''const''"
  by (simp_all add: str_def)

text \<open>
  C7, as stated, fails in two places. The message of the error is one fixed string: the
  modes \<^verbatim>\<open>"foo"\<close> and \<^verbatim>\<open>"bar"\<close> raise the same exception, and \<^verbatim>\<open>"foo"\<close> does not occur
  in its message. And the supported mode \<^verbatim>\<open>"pixel"\<close> raises ValueError when a dimension
  is negative, here \<^verbatim>\<open>h = -1\<close>.
\<close>

theorem Pixels_call_message_fixed:
  "Pixels_call \<lparr>pixels_mode = str ''foo'', pixels_mean = [0, 0, 0]\<rparr> 224 224 3
     = Inl (Exception invalid_mode_message)
   \<and> Pixels_call \<lparr>pixels_mode = str ''bar'', pixels_mean = [0, 0, 0]\<rparr> 224 224 3
     = Inl (Exception invalid_mode_message)
   \<and> py_find invalid_mode_message (str ''foo'') = - 1
   \<and> Pixels_call \<lparr>pixels_mode = str ''pixel'', pixels_mean = [0, 0, 0]\<rparr> (- 1) 3 3
     = Inl ValueError"
proof (intro conjI)
  show "Pixels_call \<lparr>pixels_mode = str ''foo'', pixels_mean = [0, 0, 0]\<rparr> 224 224 3
     = Inl (Exception invalid_mode_message)"
    by (simp add: Pixels_call_def str_def)
  show "Pixels_call \<lparr>pixels_mode = str ''bar'', pixels_mean = [0, 0, 0]\<rparr> 224 224 3
     = Inl (Exception invalid_mode_message)"
    by (simp add: Pixels_call_def str_def)
  show "py_find invalid_mode_message (str ''foo'') = - 1"
    by (rule py_find_absent) (simp_all add: invalid_mode_message_def str_def)
  show "Pixels_call \<lparr>pixels_mode = str ''pixel'', pixels_mean = [0, 0, 0]\<rparr> (- 1) 3 3
     = Inl ValueError"
    by (simp add: Pixels_call_def random_normal_def mode_names_distinct [symmetric])
qed

text \<open>
  C7 (amended): \<^verbatim>\<open>Pixels.__call__\<close> raises the exception with the fixed message of the
  source, which starts with \<^verbatim>\<open>Invalid mode\<close> and lists the supported modes, exactly when
  the mode is none of \<^verbatim>\<open>"const"\<close>, \<^verbatim>\<open>"rand"\<close> and \<^verbatim>\<open>"pixel"\<close>. The only other error is
  the ValueError of numpy, raised exactly when the mode is \<^verbatim>\<open>"pixel"\<close> and one of
  \<^verbatim>\<open>h\<close>, \<^verbatim>\<open>w\<close>, \<^verbatim>\<open>c\<close> is negative. So \<^verbatim>\<open>"const"\<close> and \<^verbatim>\<open>"rand"\<close> always return, and
  \<^verbatim>\<open>"pixel"\<close> returns whenever no dimension is negative.
\<close>

theorem Pixels_call_modes:
  "(Pixels_call self h w c = Inl (Exception invalid_mode_message))
     = (pixels_mode self \<noteq> str ''const'' \<and> pixels_mode self \<noteq> str ''rand''
        \<and> pixels_mode self \<noteq> str ''pixel'')
   \<and> (Pixels_call self h w c = Inl ValueError)
     = (pixels_mode self = str ''pixel'' \<and> (h < 0 \<or> w < 0 \<or> c < 0))
   \<and> (\<forall>e. Pixels_call self h w c = Inl e
         \<longrightarrow> e = Exception invalid_mode_message \<or> e = ValueError)
   \<and> (pixels_mode self = str ''const'' \<or> pixels_mode self = str ''rand''
       \<or> (pixels_mode self = str ''pixel'' \<and> 0 \<le> h \<and> 0 \<le> w \<and> 0 \<le> c)
       \<longrightarrow> (\<exists>r. Pixels_call self h w c = Inr r))
   \<and> prefix (str ''Invalid mode'') invalid_mode_message"
proof (intro conjI)
  show "(Pixels_call self h w c = Inl (Exception invalid_mode_message))
     = (pixels_mode self \<noteq> str ''const'' \<and> pixels_mode self \<noteq> str ''rand''
        \<and> pixels_mode self \<noteq> str ''pixel'')"
    by (auto simp: Pixels_call_def random_normal_def)
  show "(Pixels_call self h w c = Inl ValueError)
     = (pixels_mode self = str ''pixel'' \<and> (h < 0 \<or> w < 0 \<or> c < 0))"
    using mode_names_distinct by (auto simp: Pixels_call_def random_normal_def)
  show "\<forall>e. Pixels_call self h w c = Inl e
         \<longrightarrow> e = Exception invalid_mode_message \<or> e = ValueError"
    by (auto simp: Pixels_call_def random_normal_def split: if_splits)
  show "pixels_mode self = str ''const'' \<or> pixels_mode self = str ''rand''
       \<or> (pixels_mode self = str ''pixel'' \<and> 0 \<le> h \<and> 0 \<le> w \<and> 0 \<le> c)
       \<longrightarrow> (\<exists>r. Pixels_call self h w c = Inr r)"
    using mode_names_distinct by (auto simp: Pixels_call_def random_normal_def)
  show "prefix (str ''Invalid mode'') invalid_mode_message"
    by (simp add: invalid_mode_message_def str_def)
qed

theorem Pixels_call_modes_witness:
  "Pixels_call \<lparr>pixels_mode = str ''Const'', pixels_mean = [0, 0, 0]\<rparr> 224 224 3
     = Inl (Exception invalid_mode_message)
   \<and> (\<exists>r. Pixels_call \<lparr>pixels_mode = str ''const'', pixels_mean = [0, 0, 0]\<rparr> 224 224 3 = Inr r)
   \<and> (\<exists>r. Pixels_call \<lparr>pixels_mode = str ''pixel'', pixels_mean = [0, 0, 0]\<rparr> 224 224 3 = Inr r)"
proof -
  have "pixels_mode \<lparr>pixels_mode = str ''Const'', pixels_mean = [0, 0, 0]\<rparr> \<noteq> str ''const''
      \<and> pixels_mode \<lparr>pixels_mode = str ''Const'', pixels_mean = [0, 0, 0]\<rparr> \<noteq> str ''rand''
      \<and> pixels_mode \<lparr>pixels_mode = str ''Const'', pixels_mean = [0, 0, 0]\<rparr> \<noteq> str ''pixel''"
    by (simp add: str_def)
  moreover have "pixels_mode \<lparr>pixels_mode = str ''const'', pixels_mean = [0, 0, 0]\<rparr> = str ''const''"
    by simp
  moreover have "pixels_mode \<lparr>pixels_mode = str ''pixel'', pixels_mean = [0, 0, 0]\<rparr> = str ''pixel''
      \<and> (0 :: int) \<le> 224 \<and> (0 :: int) \<le> 224 \<and> (0 :: int) \<le> 3"
    by simp
  ultimately show ?thesis
    using Pixels_call_modes [of "\<lparr>pixels_mode = str ''Const'', pixels_mean = [0, 0, 0]\<rparr>" 224 224 3]
      Pixels_call_modes [of "\<lparr>pixels_mode = str ''const'', pixels_mean = [0, 0, 0]\<rparr>" 224 224 3]
      Pixels_call_modes [of "\<lparr>pixels_mode = str ''pixel'', pixels_mean = [0, 0, 0]\<rparr>" 224 224 3]
    by blast
qed

section \<open>The fallback branch of AdamWDL\<close>

lemma AdamLW_unbound: "load_global (str ''AdamLW'') = Inl (NameError (str ''AdamLW''))"
  by (simp add: load_global_def module_globals_def builtins_used_def str_def)

text \<open>
  C8: when \<^verbatim>\<open>set_param_lr_fun\<close> is \<^verbatim>\<open>None\<close>, \<^verbatim>\<open>AdamWDL._append_optimize_op\<close> reads the
  name \<^verbatim>\<open>AdamLW\<close>, which nothing binds, and raises NameError whatever the step of the base
  optimizer would do.
\<close>

theorem append_optimize_op_NameError:
  assumes "set_param_lr_fun self = None"
  shows "append_optimize_op fw self block p = Inl (NameError (str ''AdamLW''))"
  using assms by (simp add: append_optimize_op_def AdamLW_unbound)

theorem append_optimize_op_NameError_witness:
  "append_optimize_op
     \<lparr>append_decoupled_weight_decay = (\<lambda>s p. s),
      super_append_optimize_op = (\<lambda>cls s p. Inr (Suc s, p))\<rparr>
     \<lparr>set_param_lr_fun = None\<rparr> (0 :: nat)
     \<lparr>param_name = str ''blocks.0.attn.qkv.weight'', learning_rate = 1\<rparr>
   = Inl (NameError (str ''AdamLW''))"
  by (rule append_optimize_op_NameError) simp

section \<open>Length of the cosine schedule\<close>

lemma length_linspace: "0 < num \<Longrightarrow> length (linspace start stop num) = num"
  by (simp add: linspace_def)

lemma length_cosine_schedule:
  "int (length (cosine_schedule base_value final_value total_iters start_warmup_value warmup_iters))
     = (if warmup_iters > 0 then warmup_iters else 0) + max 0 (total_iters - warmup_iters)"
  by (simp add: cosine_schedule_def Let_def arange_def length_linspace)

text \<open>
  C10, as stated, fails for \<^verbatim>\<open>total_iters < -1\<close>: with the default \<^verbatim>\<open>warmup_iters = -1\<close> and
  \<^verbatim>\<open>total_iters = -2\<close>, \<^verbatim>\<open>np.arange(-1)\<close> is empty and the schedule has no entry, not
  \<^verbatim>\<open>total_iters + 1\<close>.
\<close>

theorem cosine_scheduler_negative_total:
  "int (length (cosine_schedule 1 0 (- 2) 0 (- 1))) = 0
   \<and> int (length (cosine_schedule 1 0 (- 2) 0 (- 1))) \<noteq> - 2 + 1"
  by (simp add: length_cosine_schedule)

text \<open>
  C10 (amended): the assertion of \<^verbatim>\<open>cosine_scheduler\<close> holds, and the schedule returned
  has \<^verbatim>\<open>total_iters\<close> entries, exactly when \<^verbatim>\<open>0 <= warmup_iters <= total_iters\<close>. With the
  default \<^verbatim>\<open>warmup_iters = -1\<close> the assertion always fails, and the schedule built has
  \<^verbatim>\<open>total_iters + 1\<close> entries whenever \<^verbatim>\<open>total_iters >= -1\<close>.
\<close>

theorem cosine_scheduler_assertion:
  "((\<exists>s. cosine_scheduler base_value final_value total_iters start_warmup_value warmup_iters = Inr s)
      = (0 \<le> warmup_iters \<and> warmup_iters \<le> total_iters))
   \<and> (\<forall>s. cosine_scheduler base_value final_value total_iters start_warmup_value warmup_iters = Inr s
         \<longrightarrow> int (length s) = total_iters)
   \<and> ((int (length (cosine_schedule base_value final_value total_iters start_warmup_value
                      warmup_iters)) = total_iters)
      = (0 \<le> warmup_iters \<and> warmup_iters \<le> total_iters))
   \<and> cosine_scheduler_default base_value final_value total_iters = Inl AssertionError
   \<and> (- 1 \<le> total_iters
      \<longrightarrow> int (length (cosine_schedule base_value final_value total_iters 0 (- 1)))
            = total_iters + 1)"
proof -
  let ?n = "int (length (cosine_schedule base_value final_value total_iters start_warmup_value
                      warmup_iters))"
  have iff: "(?n = total_iters) = (0 \<le> warmup_iters \<and> warmup_iters \<le> total_iters)"
    unfolding length_cosine_schedule by auto
  have dflt: "int (length (cosine_schedule base_value final_value total_iters 0 (- 1)))
      = max 0 (total_iters + 1)"
    unfolding length_cosine_schedule by simp
  show ?thesis
    using iff dflt
    by (auto simp: cosine_scheduler_def cosine_scheduler_default_def Let_def)
qed

theorem cosine_scheduler_assertion_witness:
  "(\<exists>s. cosine_scheduler 1 0 10 0 3 = Inr s \<and> int (length s) = 10)
   \<and> cosine_scheduler 1 0 10 0 11 = Inl AssertionError
   \<and> cosine_scheduler_default 1 0 10 = Inl AssertionError
   \<and> int (length (cosine_schedule 1 0 10 0 (- 1))) = 11"
proof -
  note a = cosine_scheduler_assertion [of 1 0 10 0 3]
  note b = cosine_scheduler_assertion [of 1 0 10 0 11]
  have "(0 :: int) \<le> 3 \<and> (3 :: int) \<le> 10" by simp
  with a have 1: "\<exists>s. cosine_scheduler 1 0 10 0 3 = Inr s \<and> int (length s) = 10" by blast
  have "\<not> ((0 :: int) \<le> 11 \<and> (11 :: int) \<le> 10)" by simp
  with b have "\<not> (\<exists>s. cosine_scheduler 1 0 10 0 11 = Inr s)" by blast
  then have 2: "cosine_scheduler 1 0 10 0 11 = Inl AssertionError"
    by (simp add: cosine_scheduler_def Let_def split: if_splits)
  have "(- 1 :: int) \<le> 10" by simp
  with a have 3: "cosine_scheduler_default 1 0 10 = Inl AssertionError"
    and 4: "int (length (cosine_schedule 1 0 10 0 (- 1))) = 10 + 1" by blast+
  from 1 2 3 4 show ?thesis by simp
qed

end
